theory Spec2Isabelle
  imports
    Complex_Main
    "HOL-Library.Multiset"
    "HOL-Library.List_Lexorder"
    "HOL-Library.Char_ord"
    "HOL-Library.AList"
begin

section \<open>Python values shared by the modules\<close>

text \<open>
  Chord symbols, keys and vocabulary tokens are Python \<open>str\<close>, modelled as \<open>string\<close>;
  ids and list positions are natural numbers, a semitone shift is an unbounded \<open>int\<close>.
  A raised exception is a value of \<open>py_error\<close>, returned as \<open>Inl\<close>.
\<close>

datatype py_error = KeyError | ValueError | IndexError | AssertionError

text \<open>\<open>xs.index(x)\<close>: the first position of \<open>x\<close>; \<open>None\<close> where Python raises.\<close>

fun index_of :: "'a list \<Rightarrow> 'a \<Rightarrow> nat option" where
  "index_of [] x = None"
| "index_of (y # ys) x = (if x = y then Some 0 else map_option Suc (index_of ys x))"

section \<open>Transposition engine (data-collection/augment\_transposition.py)\<close>

definition CHROMATIC_SCALE :: "string list" where
  "CHROMATIC_SCALE =
     [''C'', ''C#'', ''D'', ''D#'', ''E'', ''F'', ''F#'', ''G'', ''G#'', ''A'', ''A#'', ''B'']"

text \<open>The dict literal, in insertion order (the order \<open>items()\<close> walks it).\<close>

definition ENHARMONIC_MAP :: "(string \<times> string) list" where
  "ENHARMONIC_MAP =
     [(''C#'', ''Db''), (''D#'', ''Eb''), (''F#'', ''Gb''), (''G#'', ''Ab''), (''A#'', ''Bb''),
      (''Db'', ''C#''), (''Eb'', ''D#''), (''Gb'', ''F#''), (''Ab'', ''G#''), (''Bb'', ''A#'')]"

text \<open>\<open>parse_chord\<close> returns \<open>(None, None)\<close> on the empty string, here \<open>None\<close>.\<close>

definition parse_chord :: "string \<Rightarrow> (string \<times> string) option" where
  "parse_chord chord =
     (if length chord = 0 then None
      else if length chord > 1 \<and> chord ! 1 \<in> set [CHR ''b'', CHR ''#'']
        then Some (take 2 chord, drop 2 chord)
      else Some ([chord ! 0], drop 1 chord))"

text \<open>
  The loop \<open>for sharp, flat in ENHARMONIC_MAP.items(): if note == flat: note = sharp; break\<close>.
\<close>

fun key_of_value :: "(string \<times> string) list \<Rightarrow> string \<Rightarrow> string" where
  "key_of_value [] note = note"
| "key_of_value ((sharp, flat) # items) note =
     (if note = flat then sharp else key_of_value items note)"

definition transpose_note :: "string \<Rightarrow> int \<Rightarrow> string" where
  "transpose_note note semitones =
     (let note1 = (case map_of ENHARMONIC_MAP note of
                     Some other \<Rightarrow> if CHR ''b'' \<in> set note then other else note
                   | None \<Rightarrow> note);
          note2 = (if note1 \<notin> set CHROMATIC_SCALE
                   then key_of_value ENHARMONIC_MAP note1 else note1)
      in case index_of CHROMATIC_SCALE note2 of
           None \<Rightarrow> note2
         | Some current_index \<Rightarrow>
             CHROMATIC_SCALE ! nat ((int current_index + semitones) mod 12))"

definition transpose_chord :: "string \<Rightarrow> int \<Rightarrow> string" where
  "transpose_chord chord semitones =
     (case parse_chord chord of
        None \<Rightarrow> chord
      | Some (root', quality) \<Rightarrow> transpose_note root' semitones @ quality)"

definition transpose_progression :: "string list \<Rightarrow> int \<Rightarrow> string list" where
  "transpose_progression progression semitones =
     map (\<lambda>chord. transpose_chord chord semitones) progression"

text \<open>The three-case rule that finds the minor marker of a key: (root, suffix).\<close>

definition key_parts :: "string \<Rightarrow> string \<times> string" where
  "key_parts key =
     (if CHR ''m'' \<in> set key \<and> length key > 1 then
        (if key ! 1 = CHR ''m'' then ([key ! 0], ''m'')
         else if length key > 2 \<and> key ! 2 = CHR ''m'' then (take 2 key, ''m'')
         else (key, ''''))
      else (key, ''''))"

definition transpose_key :: "string \<Rightarrow> int \<Rightarrow> string" where
  "transpose_key key semitones =
     (case key_parts key of (root', suffix) \<Rightarrow> transpose_note root' semitones @ suffix)"

text \<open>
  A progression entry of the dataset: the JSON object's fields that the augmentation reads
  or writes. \<open>transposed_semitones\<close> and \<open>original_key\<close> are absent (\<open>None\<close>) until set.
\<close>

record prog =
  prog_id :: nat
  progression :: "string list"
  key :: string
  genre :: string
  mood :: string
  scale_type :: string
  source :: string
  transposed_semitones :: "nat option"
  original_key :: "string option"

text \<open>The body of the inner loop of \<open>augment_with_transposition\<close>: one transposed copy.\<close>

definition new_prog :: "prog \<Rightarrow> nat \<Rightarrow> nat \<Rightarrow> prog" where
  "new_prog base_prog semitones progression_id =
     (let p = base_prog\<lparr>progression := transpose_progression (progression base_prog) (int semitones),
                        key := transpose_key (key base_prog) (int semitones),
                        prog_id := progression_id\<rparr>
      in if semitones = 0 then p\<lparr>source := ''original''\<rparr>
         else p\<lparr>source := ''transposed'',
                transposed_semitones := Some semitones,
                original_key := Some (key base_prog)\<rparr>)"

text \<open>The inner loop \<open>for semitones in range(12)\<close>, threading the list and the id counter.\<close>

fun transpose_to_keys :: "prog \<Rightarrow> nat list \<Rightarrow> prog list \<times> nat \<Rightarrow> prog list \<times> nat" where
  "transpose_to_keys base_prog [] st = st"
| "transpose_to_keys base_prog (semitones # rest) (augmented, progression_id) =
     transpose_to_keys base_prog rest
       (augmented @ [new_prog base_prog semitones progression_id], progression_id + 1)"

text \<open>The outer loop \<open>for base_prog in base_progressions\<close>.\<close>

fun augment_loop :: "prog list \<Rightarrow> prog list \<times> nat \<Rightarrow> prog list \<times> nat" where
  "augment_loop [] st = st"
| "augment_loop (base_prog # rest) st =
     augment_loop rest (transpose_to_keys base_prog [0..<12] st)"

definition augment_with_transposition :: "prog list \<Rightarrow> prog list" where
  "augment_with_transposition base_progressions = fst (augment_loop base_progressions ([], 1))"




section \<open>Python dicts and slices\<close>

text \<open>
  A dict is an association list in insertion order with one entry per key: \<open>d[k] = v\<close>
  overwrites the value in place or appends a new entry, which is \<open>AList.update\<close>.
  A dict comprehension stores its pairs from left to right, so a later pair with the same
  key wins.
\<close>

definition dict_of :: "('k \<times> 'v) list \<Rightarrow> ('k \<times> 'v) list" where
  "dict_of pairs = fold (\<lambda>(k, v) d. AList.update k v d) pairs []"

text \<open>\<open>d.get(k, default)\<close>.\<close>

definition dict_get :: "('k \<times> 'v) list \<Rightarrow> 'k \<Rightarrow> 'v \<Rightarrow> 'v" where
  "dict_get d k dflt = (case map_of d k of None \<Rightarrow> dflt | Some v \<Rightarrow> v)"

text \<open>\<open>xs[:j]\<close>, \<open>xs[i:]\<close> and \<open>xs[i:j]\<close>: a negative bound counts from the end, and every
  bound is clipped to the list.\<close>

definition slice_bound :: "'a list \<Rightarrow> int \<Rightarrow> nat" where
  "slice_bound xs i = (if i < 0 then nat (int (length xs) + i) else min (nat i) (length xs))"

definition slice_to :: "'a list \<Rightarrow> int \<Rightarrow> 'a list" where
  "slice_to xs j = take (slice_bound xs j) xs"



text \<open>\<open>xs[i]\<close> on a sequence: a negative index counts from the end, out of range raises.\<close>

definition py_nth :: "'a list \<Rightarrow> int \<Rightarrow> py_error + 'a" where
  "py_nth xs i =
     (if 0 \<le> i \<and> i < int (length xs) then Inr (xs ! nat i)
      else if i < 0 \<and> - int (length xs) \<le> i then Inr (xs ! nat (int (length xs) + i))
      else Inl IndexError)"

section \<open>Vocabulary builder and codec (model-training/data\_preprocessing.py)\<close>

definition PAD_TOKEN :: string where "PAD_TOKEN = ''<PAD>''"
definition START_TOKEN :: string where "START_TOKEN = ''<START>''"
definition END_TOKEN :: string where "END_TOKEN = ''<END>''"
definition UNK_TOKEN :: string where "UNK_TOKEN = ''<UNK>''"

record preprocessor =
  max_sequence_length :: nat
  vocab_size :: nat
  chord_to_id :: "(string \<times> nat) list"
  id_to_chord :: "(nat \<times> string) list"
  genre_vocab :: "(string \<times> nat) list"
  mood_vocab :: "(string \<times> nat) list"
  key_vocab :: "(string \<times> nat) list"
  scale_type_vocab :: "(string \<times> nat) list"

text \<open>\<open>ChordProgressionPreprocessor(max_sequence_length)\<close>: every vocabulary empty.\<close>

definition init_preprocessor :: "nat \<Rightarrow> preprocessor" where
  "init_preprocessor n =
     \<lparr>max_sequence_length = n, vocab_size = 0, chord_to_id = [], id_to_chord = [],
      genre_vocab = [], mood_vocab = [], key_vocab = [], scale_type_vocab = []\<rparr>"

text \<open>\<open>{tok: idx for idx, tok in enumerate(toks)}\<close>.\<close>

definition token_ids :: "string list \<Rightarrow> (string \<times> nat) list" where
  "token_ids toks = dict_of (map (\<lambda>(idx, tok). (tok, idx)) (enumerate 0 toks))"

text \<open>
  \<open>sorted(s)\<close> of a set of strings: Python orders \<open>str\<close> lexicographically by code point,
  which on \<open>string\<close> is the order of \<open>List_Lexorder\<close> over \<open>Char_ord\<close>.
\<close>

definition all_chords :: "prog list \<Rightarrow> string set" where
  "all_chords progressions = set (concat (map progression progressions))"

definition chord_list_of :: "prog list \<Rightarrow> string list" where
  "chord_list_of progressions =
     [PAD_TOKEN, START_TOKEN, END_TOKEN, UNK_TOKEN] @ sorted_list_of_set (all_chords progressions)"

definition build_vocabularies :: "preprocessor \<Rightarrow> prog list \<Rightarrow> preprocessor" where
  "build_vocabularies pp progressions =
     (let all_genres = set (map genre progressions);
          all_moods = set (map mood progressions);
          all_keys = set (map key progressions);
          all_scale_types = set (map scale_type progressions);
          chord_list = chord_list_of progressions;
          c2i = token_ids chord_list
      in pp\<lparr>chord_to_id := c2i,
            id_to_chord := dict_of (map (\<lambda>(chord, idx). (idx, chord)) c2i),
            vocab_size := length chord_list,
            genre_vocab := token_ids (sorted_list_of_set all_genres),
            mood_vocab := token_ids (sorted_list_of_set all_moods),
            key_vocab := token_ids (sorted_list_of_set all_keys),
            scale_type_vocab := token_ids (sorted_list_of_set all_scale_types)\<rparr>)"

text \<open>
  The loop of \<open>encode_progression\<close>; \<open>self.chord_to_id[self.UNK_TOKEN]\<close> raises KeyError
  when the vocabulary has no UNK entry.
\<close>

fun encode_loop :: "(string \<times> nat) list \<Rightarrow> string list \<Rightarrow> nat list \<Rightarrow> py_error + nat list" where
  "encode_loop d [] encoded = Inr encoded"
| "encode_loop d (chord # rest) encoded =
     (case map_of d chord of
        Some idx \<Rightarrow> encode_loop d rest (encoded @ [idx])
      | None \<Rightarrow>
          (case map_of d UNK_TOKEN of
             None \<Rightarrow> Inl KeyError
           | Some unk \<Rightarrow> encode_loop d rest (encoded @ [unk])))"

definition encode_progression :: "preprocessor \<Rightarrow> string list \<Rightarrow> py_error + nat list" where
  "encode_progression pp p = encode_loop (chord_to_id pp) p []"

definition decode_progression :: "preprocessor \<Rightarrow> nat list \<Rightarrow> string list" where
  "decode_progression pp encoded = map (\<lambda>idx. dict_get (id_to_chord pp) idx UNK_TOKEN) encoded"

text \<open>
  \<open>pad_sequence(sequence, max_length=None)\<close>: the PAD id is looked up before the lengths
  are compared, so a vocabulary without PAD raises KeyError on every call.
\<close>

definition pad_sequence :: "preprocessor \<Rightarrow> nat list \<Rightarrow> int option \<Rightarrow> py_error + nat list" where
  "pad_sequence pp sequence max_length_opt =
     (let max_length = (case max_length_opt of
                          None \<Rightarrow> int (max_sequence_length pp) | Some l \<Rightarrow> l)
      in case map_of (chord_to_id pp) PAD_TOKEN of
           None \<Rightarrow> Inl KeyError
         | Some pad_id \<Rightarrow>
             if int (length sequence) > max_length then Inr (slice_to sequence max_length)
             else if int (length sequence) < max_length
               then Inr (sequence @ replicate (nat (max_length - int (length sequence))) pad_id)
             else Inr sequence)"

section \<open>Dataset splitter (model-training/data\_preprocessing.py)\<close>



section \<open>Variation engine (data-collection/augment\_variations.py)\<close>

definition CHORD_VARIATIONS :: "(string \<times> string list) list" where
  "CHORD_VARIATIONS =
     [('''', [''maj7'', ''maj9'', ''6'', ''add9'', ''sus2'', ''sus4'']),
      (''m'', [''m7'', ''m9'', ''m6'', ''madd9'', ''msus2'', ''msus4'']),
      (''7'', [''9'', ''13'', ''7sus4'', ''7b9'', ''7#9'']),
      (''maj7'', [''maj9'', ''maj13'', ''maj7#11'']),
      (''m7'', [''m9'', ''m11'', ''m13'']),
      (''dim'', [''dim7'', ''m7b5'']),
      (''aug'', [''7#5'', ''maj7#5''])]"

text \<open>
  \<open>random.sample(population, k)\<close> is the standard library's: it is the parameter
  \<open>sample\<close>, and it raises ValueError unless \<open>0 \<le> k \<le> len(population)\<close>.
  This module's \<open>parse_chord\<close> is the same function as the transposition module's.
\<close>

definition get_chord_variations ::
  "(string list \<Rightarrow> nat \<Rightarrow> string list) \<Rightarrow> string \<Rightarrow> int \<Rightarrow> py_error + string list" where
  "get_chord_variations sample chord num_variations =
     (case parse_chord chord of
        None \<Rightarrow> Inr [chord]
      | Some (root', quality) \<Rightarrow>
          (case map_of CHORD_VARIATIONS quality of
             None \<Rightarrow> Inr [chord]
           | Some available_variations \<Rightarrow>
               (let k = min num_variations (int (length available_variations))
                in if k < 0 then Inl ValueError
                   else Inr ([chord]
                          @ map (\<lambda>var_quality. root' @ var_quality)
                              (sample available_variations (nat k))))))"

section \<open>Autoregressive generator (model-training/evaluate\_model.py, data\_generator.py)\<close>

text \<open>The dict of model inputs that \<open>InferenceGenerator.prepare_input\<close> returns.\<close>

record inputs =
  chord_sequence_input :: "nat list"
  genre_input :: nat
  mood_input :: nat
  key_input :: nat
  scale_type_input :: nat

text \<open>
  \<open>chord_sequence = np.zeros((1, max_sequence_length)); chord_sequence[0, :len(seed_chords)] =
  seed_chords\<close>: the slice on the left has \<open>min(len(seed_chords), max_sequence_length)\<close>
  places, and numpy raises ValueError when a longer list is assigned to it.
\<close>

definition prepare_input ::
  "nat \<Rightarrow> nat list \<Rightarrow> nat \<Rightarrow> nat \<Rightarrow> nat \<Rightarrow> nat \<Rightarrow> py_error + inputs" where
  "prepare_input max_len seed_chords genre_id mood_id key_id scale_type_id =
     (if length seed_chords > max_len then Inl ValueError
      else Inr \<lparr>chord_sequence_input =
                  seed_chords @ replicate (max_len - length seed_chords) 0,
                genre_input = genre_id, mood_input = mood_id,
                key_input = key_id, scale_type_input = scale_type_id\<rparr>)"

text \<open>
  The state of a \<open>ChordProgressionGenerator\<close>: the vocabularies it loaded and the frame
  length of its \<open>InferenceGenerator\<close> (12 in \<open>__init__\<close>). \<open>g_chord_to_id\<close> is
  \<open>self.chord_vocab['chord_to_id']\<close>, \<open>g_id_to_chord\<close> is \<open>self.id_to_chord\<close>.
\<close>

record generator =
  g_chord_to_id :: "(string \<times> nat) list"
  g_id_to_chord :: "(nat \<times> string) list"
  genre_to_id :: "(string \<times> nat) list"
  mood_to_id :: "(string \<times> nat) list"
  key_to_id :: "(string \<times> nat) list"
  scale_to_id :: "(string \<times> nat) list"
  g_max_sequence_length :: nat

text \<open>
  The probabilities that \<open>_sample_with_temperature\<close> hands to \<open>np.random.choice\<close>:
  the scores divided by the temperature, then the softmax with the maximum subtracted.
  Scores are real numbers here, not floats.
\<close>

definition sampling_probs :: "real list \<Rightarrow> real \<Rightarrow> real list" where
  "sampling_probs logits temperature =
     (let scaled = map (\<lambda>x. x / temperature) logits;
          exp_logits = map (\<lambda>x. exp (x - Max (set scaled))) scaled
      in map (\<lambda>e. e / sum_list exp_logits) exp_logits)"

text \<open>
  \<open>np.random.choice(len(probs), p=probs)\<close> is numpy's: it is the parameter \<open>choice\<close>,
  which takes the state of the random generator and the probabilities and returns the id
  drawn and the next state. An empty score vector makes \<open>np.max\<close> raise ValueError; a
  temperature of 0 makes every probability NaN, on which \<open>np.random.choice\<close> raises
  ValueError.
\<close>

definition sample_with_temperature ::
  "('r \<Rightarrow> real list \<Rightarrow> nat \<times> 'r) \<Rightarrow> 'r \<Rightarrow> real list \<Rightarrow> real \<Rightarrow> py_error + nat \<times> 'r" where
  "sample_with_temperature choice rng logits temperature =
     (if logits = [] \<or> temperature = 0 then Inl ValueError
      else Inr (choice rng (sampling_probs logits temperature)))"

text \<open>
  The loop \<open>for _ in range(num_chords)\<close> of \<open>generate_progression\<close>. \<open>predict\<close> is the
  external model: \<open>self.model.predict(inputs)[0]\<close>, one score vector per frame position.
  The state is (current\_sequence, generated\_chords, random generator).
\<close>

fun generate_loop ::
  "generator \<Rightarrow> (inputs \<Rightarrow> real list list) \<Rightarrow> ('r \<Rightarrow> real list \<Rightarrow> nat \<times> 'r) \<Rightarrow> real
     \<Rightarrow> nat \<times> nat \<times> nat \<times> nat \<Rightarrow> nat \<Rightarrow> nat list \<times> string list \<times> 'r
     \<Rightarrow> py_error + string list" where
  "generate_loop g predict choice temperature ids 0
     (current_sequence, generated_chords, rng) = Inr generated_chords"
| "generate_loop g predict choice temperature (genre_id, mood_id, key_id, scale_id) (Suc n)
     (current_sequence, generated_chords, rng) =
     (case prepare_input (g_max_sequence_length g) current_sequence
             genre_id mood_id key_id scale_id of
        Inl e \<Rightarrow> Inl e
      | Inr inputs \<Rightarrow>
          (let predictions = predict inputs;
               current_pos =
                 (if int (length current_sequence) - 1 \<ge> int (length predictions)
                  then int (length predictions) - 1
                  else int (length current_sequence) - 1)
           in case py_nth predictions current_pos of
                Inl e \<Rightarrow> Inl e
              | Inr next_chord_probs \<Rightarrow>
                  (case sample_with_temperature choice rng next_chord_probs temperature of
                     Inl e \<Rightarrow> Inl e
                   | Inr (next_chord_id, rng') \<Rightarrow>
                       if next_chord_id = 0 \<or> next_chord_id = 2 then Inr generated_chords
                       else generate_loop g predict choice temperature
                              (genre_id, mood_id, key_id, scale_id) n
                              (current_sequence @ [next_chord_id],
                               generated_chords
                                 @ [dict_get (g_id_to_chord g) next_chord_id ''<UNK>''],
                               rng'))))"

text \<open>\<open>if seed_chords: ... else: ...\<close>: \<open>None\<close> and the empty list both take the else branch.\<close>

definition initial_sequence :: "generator \<Rightarrow> string list option \<Rightarrow> nat list" where
  "initial_sequence g seed_chords =
     (case seed_chords of
        None \<Rightarrow> [dict_get (g_chord_to_id g) ''<START>'' 1]
      | Some cs \<Rightarrow>
          if cs \<noteq> [] then map (\<lambda>c. dict_get (g_chord_to_id g) c 0) cs
          else [dict_get (g_chord_to_id g) ''<START>'' 1])"

definition generate_progression ::
  "generator \<Rightarrow> (inputs \<Rightarrow> real list list) \<Rightarrow> ('r \<Rightarrow> real list \<Rightarrow> nat \<times> 'r) \<Rightarrow> 'r
     \<Rightarrow> string \<Rightarrow> string \<Rightarrow> string \<Rightarrow> string \<Rightarrow> int \<Rightarrow> real \<Rightarrow> string list option
     \<Rightarrow> py_error + string list" where
  "generate_progression g predict choice rng genre_name mood_name key_name scale_name
     num_chords temperature seed_chords =
     (let genre_id = dict_get (genre_to_id g) genre_name 0;
          mood_id = dict_get (mood_to_id g) mood_name 0;
          key_id = dict_get (key_to_id g) key_name 0;
          scale_id = dict_get (scale_to_id g) scale_name 0
      in generate_loop g predict choice temperature (genre_id, mood_id, key_id, scale_id)
           (nat num_chords) (initial_sequence g seed_chords, [], rng))"

text \<open>
  One sampler to run the generator with: it draws as \<open>np.random.choice\<close> does, by the
  number of entries of the cumulative distribution that are at most a uniform number
  \<open>u\<close> of \<open>[0, 1)\<close>. The random generator's state is the count of draws made, \<open>us k\<close> the
  uniform number of draw \<open>k\<close>.
\<close>

fun cumsum :: "real \<Rightarrow> real list \<Rightarrow> real list" where
  "cumsum acc [] = []"
| "cumsum acc (p # ps) = (acc + p) # cumsum (acc + p) ps"

definition choice_cdf :: "(nat \<Rightarrow> real) \<Rightarrow> nat \<Rightarrow> real list \<Rightarrow> nat \<times> nat" where
  "choice_cdf us k probs = (length (filter (\<lambda>c. c \<le> us k) (cumsum 0 probs)), Suc k)"

text \<open>
  A generator over the vocabulary of one chord, as \<open>build_vocabularies\<close> writes it for a
  corpus whose only chord is C, and a model that puts probability 1 on one id at every
  position of the frame.
\<close>

definition one_chord_generator :: generator where
  "one_chord_generator =
     \<lparr>g_chord_to_id = [(''<PAD>'', 0), (''<START>'', 1), (''<END>'', 2), (''<UNK>'', 3), (''C'', 4)],
      g_id_to_chord = [(0, ''<PAD>''), (1, ''<START>''), (2, ''<END>''), (3, ''<UNK>''), (4, ''C'')],
      genre_to_id = [(''pop'', 0)], mood_to_id = [(''uplifting'', 0)],
      key_to_id = [(''C'', 0)], scale_to_id = [(''major'', 0)],
      g_max_sequence_length = 12\<rparr>"

definition one_hot :: "nat \<Rightarrow> nat \<Rightarrow> real list" where
  "one_hot n k = map (\<lambda>i. if i = k then 1 else 0) [0..<n]"

definition concentrated_model :: "nat \<Rightarrow> nat \<Rightarrow> inputs \<Rightarrow> real list list" where
  "concentrated_model n k inp = replicate (length (chord_sequence_input inp)) (one_hot n k)"


section \<open>Names used by the properties below\<close>

definition special_tokens :: "string list" where
  "special_tokens = [PAD_TOKEN, START_TOKEN, END_TOKEN, UNK_TOKEN]"

text \<open>Two small corpora: one of ordinary chords, one in which a chord is spelled like the
  PAD token.\<close>

definition example_corpus :: "prog list" where
  "example_corpus = [\<lparr>prog_id = 1, progression = [''C'', ''G'', ''Am'', ''F''], key = ''C'',
               genre = ''pop'', mood = ''uplifting'', scale_type = ''major'', source = ''original'',
               transposed_semitones = None, original_key = None\<rparr>]"

definition pad_corpus :: "prog list" where
  "pad_corpus = [\<lparr>prog_id = 1, progression = [''<PAD>'', ''C''], key = ''C'',
               genre = ''pop'', mood = ''uplifting'', scale_type = ''major'', source = ''original'',
               transposed_semitones = None, original_key = None\<rparr>]"

text \<open>The corpus whose only chord is C, and a generator that loaded no chord vocabulary.\<close>

definition one_chord_corpus :: "prog list" where
  "one_chord_corpus = [\<lparr>prog_id = 1, progression = [''C'', ''C''], key = ''C'',
               genre = ''pop'', mood = ''uplifting'', scale_type = ''major'', source = ''original'',
               transposed_semitones = None, original_key = None\<rparr>]"

definition empty_vocab_generator :: generator where
  "empty_vocab_generator = one_chord_generator\<lparr>g_chord_to_id := [], g_id_to_chord := []\<rparr>"

section \<open>Transposition: properties\<close>




























section \<open>Dicts, vocabularies and the codec: properties\<close>

lemma map_of_fold_update:
  "map_of (fold (\<lambda>(k, v) d. AList.update k v d) ps d) = map_of d ++ map_of (rev ps)"
proof (induction ps arbitrary: d)
  case Nil
  then show ?case by simp
next
  case (Cons p ps)
  obtain k v where p: "p = (k, v)" by (cases p)
  have "map_of (fold (\<lambda>(k, v) d. AList.update k v d) (p # ps) d)
        = map_of (AList.update k v d) ++ map_of (rev ps)"
    using Cons.IH[of "AList.update k v d"] p by simp
  also have "\<dots> = map_of d ++ map_of (rev (p # ps))"
    by (auto simp: p update_conv' fun_eq_iff map_add_def split: option.splits)
  finally show ?case .
qed

lemma map_of_dict_of: "map_of (dict_of ps) = map_of (rev ps)"
  by (simp add: dict_of_def map_of_fold_update)

lemma distinct_fold_update:
  "distinct (map fst d) \<Longrightarrow> distinct (map fst (fold (\<lambda>(k, v) d. AList.update k v d) ps d))"
  by (induction ps arbitrary: d) (auto simp: distinct_update)

lemma distinct_dict_of: "distinct (map fst (dict_of ps))"
  by (simp add: dict_of_def distinct_fold_update)

lemma update_fresh: "k \<notin> fst ` set d \<Longrightarrow> AList.update k v d = d @ [(k, v)]"
  by (induction d) auto

lemma fold_update_fresh:
  "distinct (map fst ps) \<Longrightarrow> fst ` set ps \<inter> fst ` set d = {} \<Longrightarrow>
   fold (\<lambda>(k, v) d. AList.update k v d) ps d = d @ ps"
proof (induction ps arbitrary: d)
  case Nil
  then show ?case by simp
next
  case (Cons p ps)
  obtain k v where p: "p = (k, v)" by (cases p)
  have fresh: "k \<notin> fst ` set d" using Cons.prems(2) p by auto
  have "fst ` set ps \<inter> fst ` set (d @ [(k, v)]) = {}"
    using Cons.prems p by auto
  then show ?case
    using Cons.IH[of "d @ [(k, v)]"] Cons.prems(1) p update_fresh[OF fresh] by simp
qed

lemma dict_of_distinct: "distinct (map fst ps) \<Longrightarrow> dict_of ps = ps"
  using fold_update_fresh[of ps "[]"] by (simp add: dict_of_def)

lemma enumerate_swap:
  "map (\<lambda>(idx, tok). (tok, idx)) (enumerate 0 toks) = zip toks [0..<length toks]"
  by (simp add: enumerate_eq_zip zip_commute[of toks] prod.swap_def case_prod_beta)

lemma token_ids_distinct: "distinct toks \<Longrightarrow> token_ids toks = zip toks [0..<length toks]"
  by (simp add: token_ids_def enumerate_swap dict_of_distinct)

lemma token_ids_sound:
  assumes "map_of (token_ids toks) c = Some i"
  shows "i < length toks \<and> toks ! i = c"
proof -
  have "map_of (rev (zip toks [0..<length toks])) c = Some i"
    using assms by (simp add: token_ids_def enumerate_swap map_of_dict_of)
  then have "(c, i) \<in> set (zip toks [0..<length toks])"
    using map_of_SomeD by fastforce
  then show ?thesis by (auto simp: in_set_zip)
qed

lemma token_ids_dom: "map_of (token_ids toks) c \<noteq> None \<longleftrightarrow> c \<in> set toks"
proof -
  have "dom (map_of (token_ids toks)) = fst ` set (zip toks [0..<length toks])"
    by (simp add: token_ids_def enumerate_swap map_of_dict_of dom_map_of_conv_image_fst)
  also have "\<dots> = set (map fst (zip toks [0..<length toks]))" by (simp only: set_map)
  also have "map fst (zip toks [0..<length toks]) = toks" by (rule map_fst_zip) simp
  finally show ?thesis by (auto simp: dom_def)
qed

lemma token_ids_inverse:
  assumes "map_of (token_ids toks) c = Some i"
  shows "map_of (dict_of (map (\<lambda>(chord, idx). (idx, chord)) (token_ids toks))) i = Some c"
proof -
  let ?d = "token_ids toks"
  have dk: "distinct (map fst ?d)" by (simp add: token_ids_def distinct_dict_of)
  have mem: "\<And>c i. (c, i) \<in> set ?d \<Longrightarrow> toks ! i = c"
    using token_ids_sound dk by (metis map_of_is_SomeI)
  have "inj_on snd (set ?d)"
    by (rule inj_onI) (metis mem prod.collapse)
  moreover have "distinct ?d" using dk by (rule distinct_map[THEN iffD1, THEN conjunct1])
  ultimately have dv: "distinct (map snd ?d)" by (simp add: distinct_map)
  have "map fst (rev (map (\<lambda>(chord, idx). (idx, chord)) ?d)) = rev (map snd ?d)"
    by (simp add: rev_map case_prod_beta)
  then have d2: "distinct (map fst (rev (map (\<lambda>(chord, idx). (idx, chord)) ?d)))"
    using dv by simp
  have "(c, i) \<in> set ?d" using assms by (rule map_of_SomeD)
  then have "(i, c) \<in> set (rev (map (\<lambda>(chord, idx). (idx, chord)) ?d))" by force
  then show ?thesis using d2 by (simp add: map_of_dict_of)
qed

lemma build_chord_to_id:
  "chord_to_id (build_vocabularies pp progs) = token_ids (chord_list_of progs)"
  by (simp add: build_vocabularies_def Let_def)

lemma build_id_to_chord:
  "id_to_chord (build_vocabularies pp progs)
   = dict_of (map (\<lambda>(chord, idx). (idx, chord)) (token_ids (chord_list_of progs)))"
  by (simp add: build_vocabularies_def Let_def)

lemma build_max_sequence_length:
  "max_sequence_length (build_vocabularies pp progs) = max_sequence_length pp"
  by (simp add: build_vocabularies_def Let_def)

lemma build_has_token:
  assumes "c \<in> set (chord_list_of progs)"
  shows "\<exists>i. map_of (chord_to_id (build_vocabularies pp progs)) c = Some i"
  using assms token_ids_dom[of "chord_list_of progs" c] by (auto simp: build_chord_to_id)

lemma build_has_pad: "\<exists>i. map_of (chord_to_id (build_vocabularies pp progs)) PAD_TOKEN = Some i"
  by (rule build_has_token) (simp add: chord_list_of_def)

lemma build_has_unk: "\<exists>i. map_of (chord_to_id (build_vocabularies pp progs)) UNK_TOKEN = Some i"
  by (rule build_has_token) (simp add: chord_list_of_def)

text \<open>
  C8. On a preprocessor whose vocabulary has been built, for every id sequence and every
  target length \<open>L \<ge> 0\<close>, \<open>pad_sequence\<close> returns a sequence of length exactly \<open>L\<close>:
  the first \<open>L\<close> elements when the input is longer, the input followed by PAD ids when it
  is shorter, the input itself when its length is \<open>L\<close>. With no target length given, the
  target is \<open>max_sequence_length\<close>.
\<close>

theorem pad_sequence_exact_length:
  assumes "0 \<le> L"
  shows "\<exists>pad_id r.
           map_of (chord_to_id (build_vocabularies pp progs)) PAD_TOKEN = Some pad_id
         \<and> pad_sequence (build_vocabularies pp progs) sequence (Some L) = Inr r
         \<and> length r = nat L
         \<and> (if length sequence > nat L then r = take (nat L) sequence
            else if length sequence < nat L
              then r = sequence @ replicate (nat L - length sequence) pad_id
            else r = sequence)
         \<and> pad_sequence (build_vocabularies pp progs) sequence None
             = pad_sequence (build_vocabularies pp progs) sequence
                 (Some (int (max_sequence_length pp)))"
proof -
  obtain pad_id where pad: "map_of (chord_to_id (build_vocabularies pp progs)) PAD_TOKEN = Some pad_id"
    using build_has_pad by blast
  show ?thesis
    using assms pad
    by (auto simp: pad_sequence_def slice_to_def slice_bound_def build_max_sequence_length nat_diff_distrib)
qed

theorem pad_sequence_exact_length_witness:
  "pad_sequence (build_vocabularies (init_preprocessor 12) []) [4, 5, 6] (Some 2) = Inr [4, 5]
   \<and> (\<exists>r. pad_sequence (build_vocabularies (init_preprocessor 12) []) [4, 5, 6] (Some 5) = Inr r
          \<and> length r = 5)"
  using pad_sequence_exact_length[of 2 "init_preprocessor 12" "[]" "[4, 5, 6]"]
    pad_sequence_exact_length[of 5 "init_preprocessor 12" "[]" "[4, 5, 6]"]
  by auto

lemma encode_loop_eq:
  assumes "map_of d UNK_TOKEN = Some unk"
  shows "encode_loop d p acc
         = Inr (acc @ map (\<lambda>c. case map_of d c of Some i \<Rightarrow> i | None \<Rightarrow> unk) p)"
  using assms by (induction p arbitrary: acc) (auto split: option.splits)

lemma decode_known:
  assumes "map_of (chord_to_id (build_vocabularies pp progs)) c = Some i"
  shows "dict_get (id_to_chord (build_vocabularies pp progs)) i dflt = c"
  using token_ids_inverse[of "chord_list_of progs" c i] assms
  by (simp add: build_chord_to_id build_id_to_chord dict_get_def)

text \<open>
  C7. On a preprocessor whose vocabulary has been built, encoding never raises and keeps the
  length; a progression whose chords are all in the chord vocabulary decodes back to itself;
  at a position whose chord is not in the vocabulary the id is the UNK id and decoding gives
  the UNK token, and at every other position the id is the chord's id and decoding gives
  the chord back.
\<close>

theorem encode_decode_roundtrip:
  "\<exists>ids unk.
      encode_progression (build_vocabularies pp progs) p = Inr ids
    \<and> map_of (chord_to_id (build_vocabularies pp progs)) UNK_TOKEN = Some unk
    \<and> length ids = length p
    \<and> ((\<forall>c \<in> set p. map_of (chord_to_id (build_vocabularies pp progs)) c \<noteq> None)
         \<longrightarrow> decode_progression (build_vocabularies pp progs) ids = p)
    \<and> (\<forall>i < length p.
          if map_of (chord_to_id (build_vocabularies pp progs)) (p ! i) = None
          then ids ! i = unk \<and> decode_progression (build_vocabularies pp progs) ids ! i = UNK_TOKEN
          else map_of (chord_to_id (build_vocabularies pp progs)) (p ! i) = Some (ids ! i)
             \<and> decode_progression (build_vocabularies pp progs) ids ! i = p ! i)"
proof -
  let ?pp = "build_vocabularies pp progs"
  obtain unk where unk: "map_of (chord_to_id ?pp) UNK_TOKEN = Some unk"
    using build_has_unk by blast
  define enc where "enc = (\<lambda>c. case map_of (chord_to_id ?pp) c of Some i \<Rightarrow> i | None \<Rightarrow> unk)"
  have e: "encode_progression ?pp p = Inr (map enc p)"
    using encode_loop_eq[OF unk, of p "[]"] by (simp add: encode_progression_def enc_def)
  have known: "\<And>c i. map_of (chord_to_id ?pp) c = Some i \<Longrightarrow>
                 enc c = i \<and> dict_get (id_to_chord ?pp) (enc c) UNK_TOKEN = c"
    using decode_known by (simp add: enc_def)
  have unknown: "\<And>c. map_of (chord_to_id ?pp) c = None \<Longrightarrow>
                 enc c = unk \<and> dict_get (id_to_chord ?pp) (enc c) UNK_TOKEN = UNK_TOKEN"
    using decode_known[OF unk] by (simp add: enc_def)
  have all: "(\<forall>c \<in> set p. map_of (chord_to_id ?pp) c \<noteq> None)
               \<longrightarrow> decode_progression ?pp (map enc p) = p"
  proof
    assume a: "\<forall>c \<in> set p. map_of (chord_to_id ?pp) c \<noteq> None"
    have "map (\<lambda>c. dict_get (id_to_chord ?pp) (enc c) UNK_TOKEN) p = map (\<lambda>c. c) p"
      by (rule map_cong[OF refl]) (use a known in auto)
    then show "decode_progression ?pp (map enc p) = p"
      by (simp add: decode_progression_def comp_def)
  qed
  have each: "\<forall>i < length p.
          if map_of (chord_to_id ?pp) (p ! i) = None
          then map enc p ! i = unk \<and> decode_progression ?pp (map enc p) ! i = UNK_TOKEN
          else map_of (chord_to_id ?pp) (p ! i) = Some (map enc p ! i)
             \<and> decode_progression ?pp (map enc p) ! i = p ! i"
    using known unknown by (auto simp: decode_progression_def)
  show ?thesis using e unk all each by (intro exI[of _ "map enc p"] exI[of _ unk]) simp
qed

lemma finite_all_chords: "finite (all_chords progs)"
  by (simp add: all_chords_def)

lemma chord_list_distinct:
  assumes "all_chords progs \<inter> set special_tokens = {}"
  shows "distinct (chord_list_of progs)"
  using assms finite_all_chords[of progs]
  by (auto simp: chord_list_of_def special_tokens_def PAD_TOKEN_def START_TOKEN_def END_TOKEN_def UNK_TOKEN_def)

lemma length_chord_list: "length (chord_list_of progs) = 4 + card (all_chords progs)"
  by (simp add: chord_list_of_def)

lemma build_chord_to_id_distinct:
  assumes "all_chords progs \<inter> set special_tokens = {}"
  shows "chord_to_id (build_vocabularies pp progs)
         = zip (chord_list_of progs) [0..<4 + card (all_chords progs)]"
  using token_ids_distinct[OF chord_list_distinct[OF assms]]
  by (simp add: build_chord_to_id length_chord_list)

lemma build_id_to_chord_distinct:
  assumes "all_chords progs \<inter> set special_tokens = {}"
  shows "id_to_chord (build_vocabularies pp progs)
         = zip [0..<4 + card (all_chords progs)] (chord_list_of progs)"
proof -
  let ?n = "4 + card (all_chords progs)"
  have "map (\<lambda>(chord, idx). (idx, chord)) (zip (chord_list_of progs) [0..<?n])
        = zip [0..<?n] (chord_list_of progs)"
    by (simp add: zip_commute[of "[0..<?n]"] prod.swap_def case_prod_beta)
  moreover have "distinct (map fst (zip [0..<?n] (chord_list_of progs)))"
    by (simp add: length_chord_list)
  ultimately show ?thesis
    using token_ids_distinct[OF chord_list_distinct[OF assms]]
    by (simp add: build_id_to_chord length_chord_list dict_of_distinct)
qed

lemma chord_id_nth:
  assumes "all_chords progs \<inter> set special_tokens = {}" "i < 4 + card (all_chords progs)"
  shows "map_of (chord_to_id (build_vocabularies pp progs)) (chord_list_of progs ! i) = Some i"
proof -
  have "map_of (zip (chord_list_of progs) [0..<4 + card (all_chords progs)]) (chord_list_of progs ! i)
        = Some ([0..<4 + card (all_chords progs)] ! i)"
    by (rule map_of_zip_nth) (use assms chord_list_distinct length_chord_list in simp_all)
  then show ?thesis using assms by (simp add: build_chord_to_id_distinct)
qed

lemma axis_vocab:
  "finite A \<Longrightarrow> token_ids (sorted_list_of_set A) = zip (sorted_list_of_set A) [0..<card A]"
  using token_ids_distinct[of "sorted_list_of_set A"] by simp

lemma chord_list_same:
  "all_chords progs2 = all_chords progs \<Longrightarrow> chord_list_of progs2 = chord_list_of progs"
  by (simp add: chord_list_of_def)

text \<open>
  C6, amended. For every corpus none of whose chords is spelled like one of the four special
  tokens, \<open>build_vocabularies\<close> gives PAD, START, END, UNK the ids 0, 1, 2, 3 and the
  corpus chords, in ascending lexicographic order, the ids from 4 on; the inverse table
  lists the same pairs; every metadata axis numbers its sorted values from 0. The chord
  vocabulary depends on the set of chords of the corpus only, so building it again from
  the same corpus gives the same ids.
\<close>

theorem build_vocabularies_ids:
  assumes "all_chords progs \<inter> set special_tokens = {}"
  shows "chord_to_id (build_vocabularies pp progs)
           = zip (special_tokens @ sorted_list_of_set (all_chords progs))
                 [0..<4 + card (all_chords progs)]
       \<and> id_to_chord (build_vocabularies pp progs)
           = zip [0..<4 + card (all_chords progs)]
                 (special_tokens @ sorted_list_of_set (all_chords progs))
       \<and> map_of (chord_to_id (build_vocabularies pp progs)) PAD_TOKEN = Some 0
       \<and> map_of (chord_to_id (build_vocabularies pp progs)) START_TOKEN = Some 1
       \<and> map_of (chord_to_id (build_vocabularies pp progs)) END_TOKEN = Some 2
       \<and> map_of (chord_to_id (build_vocabularies pp progs)) UNK_TOKEN = Some 3
       \<and> (\<forall>i < card (all_chords progs).
             map_of (chord_to_id (build_vocabularies pp progs))
               (sorted_list_of_set (all_chords progs) ! i) = Some (4 + i))
       \<and> sorted_wrt (<) (sorted_list_of_set (all_chords progs))
       \<and> set (sorted_list_of_set (all_chords progs)) = all_chords progs
       \<and> vocab_size (build_vocabularies pp progs) = 4 + card (all_chords progs)
       \<and> genre_vocab (build_vocabularies pp progs)
           = zip (sorted_list_of_set (set (map genre progs))) [0..<card (set (map genre progs))]
       \<and> mood_vocab (build_vocabularies pp progs)
           = zip (sorted_list_of_set (set (map mood progs))) [0..<card (set (map mood progs))]
       \<and> key_vocab (build_vocabularies pp progs)
           = zip (sorted_list_of_set (set (map key progs))) [0..<card (set (map key progs))]
       \<and> scale_type_vocab (build_vocabularies pp progs)
           = zip (sorted_list_of_set (set (map scale_type progs)))
                 [0..<card (set (map scale_type progs))]
       \<and> (all_chords progs2 = all_chords progs
            \<longrightarrow> chord_to_id (build_vocabularies pp2 progs2)
                = chord_to_id (build_vocabularies pp progs))"
proof -
  let ?pp = "build_vocabularies pp progs"
  have cl: "chord_list_of progs = special_tokens @ sorted_list_of_set (all_chords progs)"
    by (simp add: chord_list_of_def special_tokens_def)
  have c2i: "chord_to_id ?pp = zip (special_tokens @ sorted_list_of_set (all_chords progs))
                 [0..<4 + card (all_chords progs)]"
    using build_chord_to_id_distinct[OF assms] cl by simp
  have i2c: "id_to_chord ?pp = zip [0..<4 + card (all_chords progs)]
                 (special_tokens @ sorted_list_of_set (all_chords progs))"
    using build_id_to_chord_distinct[OF assms] cl by simp
  have sp: "map_of (chord_to_id ?pp) PAD_TOKEN = Some 0"
       "map_of (chord_to_id ?pp) START_TOKEN = Some 1"
       "map_of (chord_to_id ?pp) END_TOKEN = Some 2"
       "map_of (chord_to_id ?pp) UNK_TOKEN = Some 3"
    using chord_id_nth[OF assms, of 0 pp] chord_id_nth[OF assms, of 1 pp]
      chord_id_nth[OF assms, of 2 pp] chord_id_nth[OF assms, of 3 pp]
    by (simp_all add: cl special_tokens_def)
  have corpus: "\<forall>i < card (all_chords progs).
             map_of (chord_to_id ?pp) (sorted_list_of_set (all_chords progs) ! i) = Some (4 + i)"
  proof (intro allI impI)
    fix i assume i: "i < card (all_chords progs)"
    have "chord_list_of progs ! (4 + i) = sorted_list_of_set (all_chords progs) ! i"
      by (simp add: cl special_tokens_def nth_append)
    then show "map_of (chord_to_id ?pp) (sorted_list_of_set (all_chords progs) ! i) = Some (4 + i)"
      using chord_id_nth[OF assms, of "4 + i" pp] i by simp
  qed
  have srt: "sorted_wrt (<) (sorted_list_of_set (all_chords progs))"
       "set (sorted_list_of_set (all_chords progs)) = all_chords progs"
    using finite_all_chords[of progs] by simp_all
  have vs: "vocab_size ?pp = 4 + card (all_chords progs)"
    by (simp add: build_vocabularies_def Let_def length_chord_list)
  have axes: "genre_vocab ?pp
           = zip (sorted_list_of_set (set (map genre progs))) [0..<card (set (map genre progs))]"
       "mood_vocab ?pp
           = zip (sorted_list_of_set (set (map mood progs))) [0..<card (set (map mood progs))]"
       "key_vocab ?pp
           = zip (sorted_list_of_set (set (map key progs))) [0..<card (set (map key progs))]"
       "scale_type_vocab ?pp
           = zip (sorted_list_of_set (set (map scale_type progs)))
                 [0..<card (set (map scale_type progs))]"
    by (simp_all add: build_vocabularies_def Let_def axis_vocab)
  have same: "all_chords progs2 = all_chords progs
            \<longrightarrow> chord_to_id (build_vocabularies pp2 progs2) = chord_to_id ?pp"
    using chord_list_same[of progs2 progs] by (auto simp: build_chord_to_id)
  show ?thesis
    using c2i i2c sp corpus srt vs axes same by (intro conjI)
qed

lemma example_corpus_chords: "all_chords example_corpus = {''C'', ''G'', ''Am'', ''F''}"
  by (simp add: all_chords_def example_corpus_def)

lemma example_corpus_sorted: "sorted_list_of_set (all_chords example_corpus) = [''Am'', ''C'', ''F'', ''G'']"
  unfolding all_chords_def example_corpus_def by code_simp

theorem build_vocabularies_ids_witness:
  "all_chords example_corpus \<inter> set special_tokens = {}
   \<and> chord_to_id (build_vocabularies (init_preprocessor 12) example_corpus)
       = [(''<PAD>'', 0), (''<START>'', 1), (''<END>'', 2), (''<UNK>'', 3),
          (''Am'', 4), (''C'', 5), (''F'', 6), (''G'', 7)]"
proof -
  have h: "all_chords example_corpus \<inter> set special_tokens = {}"
    by (simp add: example_corpus_chords special_tokens_def PAD_TOKEN_def START_TOKEN_def
          END_TOKEN_def UNK_TOKEN_def)
  have c: "card (all_chords example_corpus) = 4" by (simp add: example_corpus_chords)
  show ?thesis
    using h build_vocabularies_ids[OF h, of "init_preprocessor 12"]
    by (simp add: c example_corpus_sorted special_tokens_def PAD_TOKEN_def START_TOKEN_def
          END_TOKEN_def UNK_TOKEN_def upt_rec)
qed

text \<open>
  C6, as the code has it. The dict comprehension lets a later entry of \<open>chord_list\<close>
  overwrite an earlier one with the same key: in a corpus with a chord spelled \<open><PAD>\<close>
  the PAD token gets the id of that chord, 4, not 0.
\<close>

theorem build_vocabularies_ids_counterexample:
  "map_of (chord_to_id (build_vocabularies (init_preprocessor 12) pad_corpus)) PAD_TOKEN \<noteq> Some 0"
  by code_simp


lemma example_corpus_known: "c \<in> {''C'', ''G'', ''Am'', ''F''} \<Longrightarrow>
   map_of (chord_to_id (build_vocabularies (init_preprocessor 12) example_corpus)) c \<noteq> None"
  using token_ids_dom[of "chord_list_of example_corpus" c] finite_all_chords[of example_corpus]
  by (auto simp: build_chord_to_id chord_list_of_def example_corpus_chords)

lemma example_corpus_unknown:
  "map_of (chord_to_id (build_vocabularies (init_preprocessor 12) example_corpus)) ''Xyz'' = None"
  using token_ids_dom[of "chord_list_of example_corpus" "''Xyz''"] finite_all_chords[of example_corpus]
  by (simp add: build_chord_to_id chord_list_of_def example_corpus_chords PAD_TOKEN_def START_TOKEN_def
        END_TOKEN_def UNK_TOKEN_def)

theorem encode_decode_roundtrip_witness:
  "(\<exists>ids. encode_progression (build_vocabularies (init_preprocessor 12) example_corpus)
             [''Am'', ''F'', ''C'', ''G''] = Inr ids
         \<and> decode_progression (build_vocabularies (init_preprocessor 12) example_corpus) ids
             = [''Am'', ''F'', ''C'', ''G''])
   \<and> (\<exists>ids. encode_progression (build_vocabularies (init_preprocessor 12) example_corpus)
             [''Xyz''] = Inr ids
         \<and> decode_progression (build_vocabularies (init_preprocessor 12) example_corpus) ids ! 0
             = UNK_TOKEN)"
proof -
  have k: "\<forall>c \<in> set [''Am'', ''F'', ''C'', ''G''].
             map_of (chord_to_id (build_vocabularies (init_preprocessor 12) example_corpus)) c \<noteq> None"
    using example_corpus_known by simp
  show ?thesis
    using k example_corpus_unknown
      encode_decode_roundtrip[of "init_preprocessor 12" example_corpus "[''Am'', ''F'', ''C'', ''G'']"]
      encode_decode_roundtrip[of "init_preprocessor 12" example_corpus "[''Xyz'']"]
    by auto
qed

text \<open>
  C10. A seed chord that is not in the generator's chord vocabulary becomes id 0 in the
  initial sequence, and so in the frame that \<open>prepare_input\<close> builds from it; every seed
  chord is looked up with default 0; without a \<open><START>\<close> entry the unseeded initial
  sequence is \<open>[1]\<close>. When the vocabulary is the one \<open>build_vocabularies\<close> made from a
  corpus without special-token chords, 0 is the PAD id, while \<open>encode_progression\<close> gives
  the same unknown chord the UNK id 3.
\<close>

theorem seed_unknown_is_pad:
  "(map_of (g_chord_to_id g) c = None \<longrightarrow>
      initial_sequence g (Some (c # cs)) ! 0 = 0
    \<and> (length cs < g_max_sequence_length g \<longrightarrow>
         (\<exists>inp. prepare_input (g_max_sequence_length g) (initial_sequence g (Some (c # cs)))
                   gi mi ki si = Inr inp
                \<and> chord_sequence_input inp ! 0 = 0)))
   \<and> initial_sequence g (Some (s # seeds))
       = map (\<lambda>c. case map_of (g_chord_to_id g) c of None \<Rightarrow> 0 | Some i \<Rightarrow> i) (s # seeds)
   \<and> (map_of (g_chord_to_id g) ''<START>'' = None \<longrightarrow>
        initial_sequence g None = [1] \<and> initial_sequence g (Some []) = [1])
   \<and> (all_chords progs \<inter> set special_tokens = {}
        \<and> g_chord_to_id g = chord_to_id (build_vocabularies pp progs)
        \<and> c \<notin> all_chords progs \<and> c \<notin> set special_tokens \<longrightarrow>
          map_of (g_chord_to_id g) c = None
        \<and> map_of (g_chord_to_id g) PAD_TOKEN = Some 0
        \<and> map_of (g_chord_to_id g) UNK_TOKEN = Some 3
        \<and> encode_progression (build_vocabularies pp progs) [c] = Inr [3])"
proof -
  have a: "map_of (g_chord_to_id g) c = None \<longrightarrow>
      initial_sequence g (Some (c # cs)) ! 0 = 0
    \<and> (length cs < g_max_sequence_length g \<longrightarrow>
         (\<exists>inp. prepare_input (g_max_sequence_length g) (initial_sequence g (Some (c # cs)))
                   gi mi ki si = Inr inp
                \<and> chord_sequence_input inp ! 0 = 0))"
    by (auto simp: initial_sequence_def dict_get_def prepare_input_def)
  have b: "initial_sequence g (Some (s # seeds))
       = map (\<lambda>c. case map_of (g_chord_to_id g) c of None \<Rightarrow> 0 | Some i \<Rightarrow> i) (s # seeds)"
    by (simp add: initial_sequence_def dict_get_def)
  have c: "map_of (g_chord_to_id g) ''<START>'' = None \<longrightarrow>
        initial_sequence g None = [1] \<and> initial_sequence g (Some []) = [1]"
    by (simp add: initial_sequence_def dict_get_def)
  have d: "all_chords progs \<inter> set special_tokens = {}
        \<and> g_chord_to_id g = chord_to_id (build_vocabularies pp progs)
        \<and> c \<notin> all_chords progs \<and> c \<notin> set special_tokens \<longrightarrow>
          map_of (g_chord_to_id g) c = None
        \<and> map_of (g_chord_to_id g) PAD_TOKEN = Some 0
        \<and> map_of (g_chord_to_id g) UNK_TOKEN = Some 3
        \<and> encode_progression (build_vocabularies pp progs) [c] = Inr [3]"
  proof (intro impI, elim conjE)
    assume h: "all_chords progs \<inter> set special_tokens = {}"
      and g: "g_chord_to_id g = chord_to_id (build_vocabularies pp progs)"
      and c1: "c \<notin> all_chords progs" and c2: "c \<notin> set special_tokens"
    have "c \<notin> set (chord_list_of progs)"
      using c1 c2 finite_all_chords[of progs] by (simp add: chord_list_of_def special_tokens_def)
    then have none: "map_of (chord_to_id (build_vocabularies pp progs)) c = None"
      using token_ids_dom[of "chord_list_of progs" c] by (simp add: build_chord_to_id)
    have pad: "map_of (chord_to_id (build_vocabularies pp progs)) PAD_TOKEN = Some 0"
      using chord_id_nth[OF h, of 0 pp] by (simp add: chord_list_of_def)
    have unk: "map_of (chord_to_id (build_vocabularies pp progs)) UNK_TOKEN = Some 3"
      using chord_id_nth[OF h, of 3 pp] by (simp add: chord_list_of_def)
    show "map_of (g_chord_to_id g) c = None
        \<and> map_of (g_chord_to_id g) PAD_TOKEN = Some 0
        \<and> map_of (g_chord_to_id g) UNK_TOKEN = Some 3
        \<and> encode_progression (build_vocabularies pp progs) [c] = Inr [3]"
      using none pad unk g by (simp add: encode_progression_def)
  qed
  show ?thesis using a b c d by (intro conjI)
qed

lemma one_chord_vocabulary:
  "chord_to_id (build_vocabularies (init_preprocessor 12) one_chord_corpus)
   = g_chord_to_id one_chord_generator"
  by code_simp

theorem seed_unknown_is_pad_witness:
  "map_of (g_chord_to_id one_chord_generator) ''Xyz'' = None
   \<and> initial_sequence one_chord_generator (Some [''Xyz'', ''C'']) ! 0 = 0
   \<and> (\<exists>inp. prepare_input (g_max_sequence_length one_chord_generator)
                (initial_sequence one_chord_generator (Some [''Xyz'', ''C''])) 0 0 0 0 = Inr inp
            \<and> chord_sequence_input inp ! 0 = 0)
   \<and> initial_sequence one_chord_generator (Some [''Xyz'', ''C'']) = [0, 4]
   \<and> map_of (g_chord_to_id empty_vocab_generator) ''<START>'' = None
   \<and> initial_sequence empty_vocab_generator None = [1]
   \<and> map_of (g_chord_to_id one_chord_generator) PAD_TOKEN = Some 0
   \<and> encode_progression (build_vocabularies (init_preprocessor 12) one_chord_corpus) [''Xyz'']
       = Inr [3]"
proof -
  have h1: "map_of (g_chord_to_id one_chord_generator) ''Xyz'' = None"
    by (simp add: one_chord_generator_def)
  have h2: "length [''C''] < g_max_sequence_length one_chord_generator"
    by (simp add: one_chord_generator_def)
  have h3: "map_of (g_chord_to_id empty_vocab_generator) ''<START>'' = None"
    by (simp add: empty_vocab_generator_def)
  have h4: "all_chords one_chord_corpus \<inter> set special_tokens = {}"
    by (simp add: all_chords_def one_chord_corpus_def special_tokens_def PAD_TOKEN_def
          START_TOKEN_def END_TOKEN_def UNK_TOKEN_def)
  have h5: "''Xyz'' \<notin> all_chords one_chord_corpus \<and> ''Xyz'' \<notin> set special_tokens"
    by (simp add: all_chords_def one_chord_corpus_def special_tokens_def PAD_TOKEN_def
          START_TOKEN_def END_TOKEN_def UNK_TOKEN_def)
  have m: "map (\<lambda>c. case map_of (g_chord_to_id one_chord_generator) c of None \<Rightarrow> 0 | Some i \<Rightarrow> i)
             [''Xyz'', ''C''] = [0, 4]"
    by (simp add: one_chord_generator_def)
  note T = seed_unknown_is_pad[of one_chord_generator "''Xyz''" "[''C'']" 0 0 0 0 "''Xyz''" "[''C'']"
        one_chord_corpus "init_preprocessor 12"]
  note T' = seed_unknown_is_pad[of empty_vocab_generator "''Xyz''" "[''C'']" 0 0 0 0 "''Xyz''"
        "[''C'']" one_chord_corpus "init_preprocessor 12"]
  have a: "initial_sequence one_chord_generator (Some [''Xyz'', ''C'']) ! 0 = 0
     \<and> (\<exists>inp. prepare_input (g_max_sequence_length one_chord_generator)
                (initial_sequence one_chord_generator (Some [''Xyz'', ''C''])) 0 0 0 0 = Inr inp
            \<and> chord_sequence_input inp ! 0 = 0)"
    using T h1 h2 by blast
  have b: "initial_sequence one_chord_generator (Some [''Xyz'', ''C'']) = [0, 4]"
    using T[THEN conjunct2, THEN conjunct1] m by simp
  have c: "initial_sequence empty_vocab_generator None = [1]"
    using T' h3 by blast
  have d: "map_of (g_chord_to_id one_chord_generator) PAD_TOKEN = Some 0
     \<and> encode_progression (build_vocabularies (init_preprocessor 12) one_chord_corpus) [''Xyz'']
         = Inr [3]"
    using T h4 h5 one_chord_vocabulary[symmetric] by blast
  show ?thesis using h1 h3 a b c d by blast
qed

section \<open>Dataset splitter: properties\<close>









section \<open>Variation engine: properties\<close>

lemma variations_distinct:
  "map_of CHORD_VARIATIONS q = Some cands \<Longrightarrow> distinct cands"
  by (auto simp: CHORD_VARIATIONS_def split: if_splits)

lemma sample_distinct:
  assumes "distinct xs" "mset ys \<subseteq># mset xs"
  shows "distinct ys \<and> set ys \<subseteq> set xs"
proof -
  have sub: "set ys \<subseteq> set xs" using assms(2) set_mset_mono by fastforce
  have "count (mset ys) a = (if a \<in> set ys then 1 else 0)" for a
  proof (cases "a \<in> set ys")
    case True
    have "count (mset ys) a \<le> count (mset xs) a"
      using assms(2) by (rule mset_subset_eq_count)
    also have "\<dots> \<le> 1" using assms(1) by (simp add: distinct_count_atmost_1)
    finally have "count (mset ys) a \<le> 1" .
    moreover have "0 < count (mset ys) a" using True by simp
    ultimately have "count (mset ys) a = 1" by linarith
    then show ?thesis using True by simp
  next
    case False
    then show ?thesis by simp
  qed
  then have "distinct ys" by (simp add: distinct_count_atmost_1)
  then show ?thesis using sub by simp
qed

text \<open>
  C9. With \<open>random.sample\<close> returning \<open>k\<close> elements of the population, each at most as
  often as the population holds it, and \<open>k \<ge> 0\<close>: the empty chord gives \<open>[c]\<close>; a chord
  whose quality is not a key of the table gives \<open>[c]\<close>; a chord whose quality is a key
  gives \<open>c\<close> followed by exactly \<open>min(k, number of candidates)\<close> substitutes, distinct
  from each other, each the root of \<open>c\<close> followed by one of the candidates.
\<close>

theorem get_chord_variations_spec:
  assumes sample_ok: "\<forall>xs k. k \<le> length xs \<longrightarrow>
                        length (sample xs k) = k \<and> mset (sample xs k) \<subseteq># mset xs"
      and k: "0 \<le> k"
  shows "(parse_chord c = None \<longrightarrow> get_chord_variations sample c k = Inr [c])
       \<and> (\<forall>r q. parse_chord c = Some (r, q) \<longrightarrow>
             (map_of CHORD_VARIATIONS q = None \<longrightarrow> get_chord_variations sample c k = Inr [c])
           \<and> (\<forall>cands. map_of CHORD_VARIATIONS q = Some cands \<longrightarrow>
                 (\<exists>subs. get_chord_variations sample c k = Inr (c # subs)
                       \<and> length subs = min (nat k) (length cands)
                       \<and> distinct subs
                       \<and> (\<forall>s \<in> set subs. \<exists>v \<in> set cands. s = r @ v))))"
proof (intro conjI allI impI)
  assume "parse_chord c = None"
  then show "get_chord_variations sample c k = Inr [c]" by (simp add: get_chord_variations_def)
next
  fix r q assume "parse_chord c = Some (r, q)" "map_of CHORD_VARIATIONS q = None"
  then show "get_chord_variations sample c k = Inr [c]" by (simp add: get_chord_variations_def)
next
  fix r q cands
  assume p: "parse_chord c = Some (r, q)" and t: "map_of CHORD_VARIATIONS q = Some cands"
  define n where "n = min (nat k) (length cands)"
  define sel where "sel = sample cands n"
  have nk: "nat (min k (int (length cands))) = n"
    unfolding n_def using k by (cases "k \<le> int (length cands)") (simp_all add: min_def nat_le_iff)
  have g: "get_chord_variations sample c k = Inr (c # map (\<lambda>v. r @ v) sel)"
    using p t k nk by (simp add: get_chord_variations_def Let_def sel_def min_def)
  have "n \<le> length cands" by (simp add: n_def)
  then have len: "length sel = n" and sub: "mset sel \<subseteq># mset cands"
    using sample_ok by (simp_all add: sel_def)
  have ds: "distinct sel" "set sel \<subseteq> set cands"
    using sample_distinct[OF variations_distinct[OF t] sub] by simp_all
  have "distinct (map (\<lambda>v. r @ v) sel)"
    using ds(1) by (simp add: distinct_map inj_on_def)
  moreover have "\<forall>s \<in> set (map (\<lambda>v. r @ v) sel). \<exists>v \<in> set cands. s = r @ v"
    using ds(2) by auto
  ultimately show "\<exists>subs. get_chord_variations sample c k = Inr (c # subs)
                       \<and> length subs = min (nat k) (length cands)
                       \<and> distinct subs
                       \<and> (\<forall>s \<in> set subs. \<exists>v \<in> set cands. s = r @ v)"
    using g len by (intro exI[of _ "map (\<lambda>v. r @ v) sel"]) (simp add: n_def)
qed

lemma take_sample: "\<forall>xs k. k \<le> length xs \<longrightarrow>
     length ((\<lambda>xs k. take k xs) xs k) = k \<and> mset ((\<lambda>xs k. take k xs) xs k) \<subseteq># mset (xs :: string list)"
proof (intro allI impI)
  fix xs :: "string list" and k assume "k \<le> length xs"
  have "mset (take k xs) \<subseteq># mset (take k xs) + mset (drop k xs)" by simp
  also have "\<dots> = mset xs" by (metis append_take_drop_id mset_append)
  finally show "length ((\<lambda>xs k. take k xs) xs k) = k \<and> mset ((\<lambda>xs k. take k xs) xs k) \<subseteq># mset xs"
    using \<open>k \<le> length xs\<close> by simp
qed

theorem get_chord_variations_spec_witness:
  "(\<exists>subs. get_chord_variations (\<lambda>xs k. take k xs) ''C'' 2 = Inr (''C'' # subs)
          \<and> length subs = 2 \<and> distinct subs
          \<and> (\<forall>s \<in> set subs. \<exists>v \<in> set [''maj7'', ''maj9'', ''6'', ''add9'', ''sus2'', ''sus4'']. s = ''C'' @ v))
   \<and> get_chord_variations (\<lambda>xs k. take k xs) ''Cxyz'' 2 = Inr [''Cxyz'']
   \<and> get_chord_variations (\<lambda>xs k. take k xs) [] 2 = Inr ['''']"
proof -
  have k: "(0::int) \<le> 2" by simp
  have p1: "parse_chord ''C'' = Some (''C'', [])" by (simp add: parse_chord_def)
  have t1: "map_of CHORD_VARIATIONS [] = Some [''maj7'', ''maj9'', ''6'', ''add9'', ''sus2'', ''sus4'']"
    by (simp add: CHORD_VARIATIONS_def)
  have p2: "parse_chord ''Cxyz'' = Some (''C'', ''xyz'')" by (simp add: parse_chord_def)
  have t2: "map_of CHORD_VARIATIONS ''xyz'' = None" by (simp add: CHORD_VARIATIONS_def)
  have p3: "parse_chord [] = None" by (simp add: parse_chord_def)
  have a: "\<exists>subs. get_chord_variations (\<lambda>xs k. take k xs) ''C'' 2 = Inr (''C'' # subs)
          \<and> length subs = min (nat 2) (length [''maj7'', ''maj9'', ''6'', ''add9'', ''sus2'', ''sus4''])
          \<and> distinct subs
          \<and> (\<forall>s \<in> set subs. \<exists>v \<in> set [''maj7'', ''maj9'', ''6'', ''add9'', ''sus2'', ''sus4'']. s = ''C'' @ v)"
    using get_chord_variations_spec[OF take_sample k, of "''C''"] p1 t1 by blast
  have b: "get_chord_variations (\<lambda>xs k. take k xs) ''Cxyz'' 2 = Inr [''Cxyz'']"
    using get_chord_variations_spec[OF take_sample k, of "''Cxyz''"] p2 t2 by blast
  have c: "get_chord_variations (\<lambda>xs k. take k xs) [] 2 = Inr ['''']"
    using get_chord_variations_spec[OF take_sample k, of "[]"] p3 by blast
  have m: "min (nat 2) (length [''maj7'', ''maj9'', ''6'', ''add9'', ''sus2'', ''sus4'']) = 2"
    by simp
  show ?thesis using a b c unfolding m by blast
qed

section \<open>Autoregressive generator: properties\<close>

lemma sum_list_pos_real:
  fixes es :: "real list"
  assumes "es \<noteq> []" "\<forall>e \<in> set es. 0 < e"
  shows "0 < sum_list es"
  using assms by (induction es) (auto intro: add_pos_nonneg sum_list_nonneg less_imp_le)

text \<open>
  The sampling step: the scores divided by the temperature go through the softmax with the
  maximum subtracted, which gives one probability for each id, every one of them positive,
  summing to 1. So every id of the vocabulary can be drawn, whatever the scores.
\<close>

lemma sampling_probs_distribution:
  assumes "logits \<noteq> []"
  shows "length (sampling_probs logits t) = length logits
       \<and> (\<forall>p \<in> set (sampling_probs logits t). 0 < p)
       \<and> sum_list (sampling_probs logits t) = 1"
proof -
  define es where
    "es = map (\<lambda>x. exp (x - Max (set (map (\<lambda>x. x / t) logits)))) (map (\<lambda>x. x / t) logits)"
  have sp: "sampling_probs logits t = map (\<lambda>e. e / sum_list es) es"
    by (simp add: sampling_probs_def Let_def es_def)
  have ne: "es \<noteq> []" using assms by (simp add: es_def)
  have pos: "\<forall>e \<in> set es. 0 < e" by (auto simp: es_def)
  have S: "0 < sum_list es" using sum_list_pos_real[OF ne pos] .
  have "sum_list (map (\<lambda>e. e / sum_list es) es) = sum_list es / sum_list es"
    by (simp add: divide_inverse sum_list_mult_const)
  then have "sum_list (sampling_probs logits t) = 1" using S sp by simp
  moreover have "\<forall>p \<in> set (sampling_probs logits t). 0 < p" using pos S sp by auto
  moreover have "length (sampling_probs logits t) = length logits" by (simp add: sp es_def)
  ultimately show ?thesis by blast
qed

lemma one_hot_5_4: "one_hot 5 4 = [0, 0, 0, 0, 1]"
  by (simp add: one_hot_def upt_rec)

lemma exp_minus_one_bounds: "1 / 3 \<le> exp (- 1 :: real)" "exp (- 1 :: real) < 1"
proof -
  have "exp (1::real) \<le> 3" by (rule exp_le)
  moreover have "exp (- 1 :: real) = 1 / exp 1" by (simp add: exp_minus inverse_eq_divide)
  ultimately show "1 / 3 \<le> exp (- 1 :: real)"
    by (simp add: frac_le)
  show "exp (- 1 :: real) < 1" by simp
qed

lemma probs_one_hot:
  "sampling_probs [0, 0, 0, 0, 1] 1 =
     [exp (- 1) / (4 * exp (- 1) + 1), exp (- 1) / (4 * exp (- 1) + 1),
      exp (- 1) / (4 * exp (- 1) + 1), exp (- 1) / (4 * exp (- 1) + 1),
      1 / (4 * exp (- 1) + 1)]"
  by (simp add: sampling_probs_def Let_def)

lemma pad_prob: "1 / 10 < exp (- 1 :: real) / (4 * exp (- 1) + 1)"
proof -
  have "0 < 4 * exp (- 1 :: real) + 1" by (simp add: add_pos_pos)
  moreover have "4 * exp (- 1 :: real) + 1 < 10 * exp (- 1)"
    using exp_minus_one_bounds(1) by simp
  ultimately show ?thesis by (simp add: pos_less_divide_eq)
qed

lemma chord_prob: "1 / (4 * exp (- 1 :: real) + 1) < 1 / 2"
proof -
  have "2 < 4 * exp (- 1 :: real) + 1" using exp_minus_one_bounds(1) by simp
  then show ?thesis by (simp add: frac_less2)
qed

lemma choice_low:
  "choice_cdf (\<lambda>k. 1 / 10) n (sampling_probs [0, 0, 0, 0, 1] 1) = (0, Suc n)"
proof -
  let ?p = "exp (- 1 :: real) / (4 * exp (- 1) + 1)"
  have p: "1 / 10 < ?p" by (rule pad_prob)
  have q: "0 < 1 / (4 * exp (- 1 :: real) + 1)" by (simp add: add_pos_pos)
  have "\<not> ?p \<le> 1 / 10" "\<not> ?p + ?p \<le> 1 / 10" "\<not> ?p + ?p + ?p \<le> 1 / 10"
       "\<not> ?p + ?p + ?p + ?p \<le> 1 / 10"
       "\<not> ?p + ?p + ?p + ?p + 1 / (4 * exp (- 1 :: real) + 1) \<le> 1 / 10"
    using p q by linarith+
  then show ?thesis
    by (simp add: choice_cdf_def probs_one_hot del: divide_le_eq_numeral1 le_divide_eq_numeral1)
qed

lemma model_row:
  "concentrated_model 5 4 inp = replicate (length (chord_sequence_input inp)) [0, 0, 0, 0, 1]"
  by (simp add: concentrated_model_def one_hot_5_4)

lemma unseeded_start:
  "generate_progression g predict choice rng gn mn kn sn num_chords t None
   = generate_loop g predict choice t
       (dict_get (genre_to_id g) gn 0, dict_get (mood_to_id g) mn 0,
        dict_get (key_to_id g) kn 0, dict_get (scale_to_id g) sn 0)
       (nat num_chords) ([dict_get (g_chord_to_id g) ''<START>'' 1], [], rng)"
  by (simp add: generate_progression_def initial_sequence_def Let_def)

lemma one_chord_start: "dict_get (g_chord_to_id one_chord_generator) ''<START>'' 1 = 1"
  by (simp add: one_chord_generator_def dict_get_def)

lemma stops_at_pad:
  "generate_loop one_chord_generator (concentrated_model 5 4) (choice_cdf (\<lambda>k. 1 / 10)) 1
     ids (Suc n) ([1], [], 0) = Inr []"
proof -
  obtain gi mi ki si where ids: "ids = (gi, mi, ki, si)" by (cases ids) auto
  show ?thesis
    unfolding ids
    by (subst generate_loop.simps(2))
       (simp add: one_chord_generator_def model_row prepare_input_def py_nth_def
          sample_with_temperature_def choice_low Let_def del: generate_loop.simps)
qed

lemma choice_high:
  "choice_cdf (\<lambda>k. 9 / 10) n (sampling_probs [0, 0, 0, 0, 1] 1) = (4, Suc n)"
proof -
  let ?p = "exp (- 1 :: real) / (4 * exp (- 1) + 1)"
  let ?q = "1 / (4 * exp (- 1 :: real) + 1)"
  have d: "0 < 4 * exp (- 1 :: real) + 1" by (simp add: add_pos_pos)
  have p0: "0 < ?p" using d by simp
  have "4 * exp (- 1 :: real) + 1 \<le> 10" using exp_minus_one_bounds(2) by linarith
  then have q: "1 / 10 \<le> ?q" using d by (simp add: frac_le)
  have "?p + ?p + ?p + ?p + ?q
        = (exp (- 1) + exp (- 1) + exp (- 1) + exp (- 1) + 1) / (4 * exp (- 1 :: real) + 1)"
    by (simp only: add_divide_distrib)
  also have "exp (- 1) + exp (- 1) + exp (- 1) + exp (- 1) + 1 = 4 * exp (- 1 :: real) + 1"
    by simp
  also have "(4 * exp (- 1 :: real) + 1) / (4 * exp (- 1) + 1) = 1"
    using d by simp
  finally have one: "?p + ?p + ?p + ?p + ?q = 1" .
  have "?p \<le> 9 / 10" "?p + ?p \<le> 9 / 10" "?p + ?p + ?p \<le> 9 / 10"
       "?p + ?p + ?p + ?p \<le> 9 / 10" "\<not> ?p + ?p + ?p + ?p + ?q \<le> 9 / 10"
    using p0 q one by linarith+
  then show ?thesis
    by (simp add: choice_cdf_def probs_one_hot del: divide_le_eq_numeral1 le_divide_eq_numeral1)
qed

lemma frame_overflow:
  "length current_sequence > g_max_sequence_length g \<Longrightarrow>
   generate_loop g predict choice t ids (Suc n) (current_sequence, generated_chords, rng)
   = Inl ValueError"
  by (cases ids) (simp add: prepare_input_def)

lemma one_chord_step:
  assumes "cs \<noteq> []" "length cs \<le> 12"
  shows "generate_loop one_chord_generator (concentrated_model 5 4) (choice_cdf (\<lambda>k. 9 / 10)) 1
           (gi, mi, ki, si) (Suc n) (cs, acc, k)
         = generate_loop one_chord_generator (concentrated_model 5 4) (choice_cdf (\<lambda>k. 9 / 10)) 1
             (gi, mi, ki, si) n (cs @ [4], acc @ [''C''], Suc k)"
proof -
  define F where "F = \<lparr>chord_sequence_input = cs @ replicate (12 - length cs) 0,
                genre_input = gi, mood_input = mi, key_input = ki, scale_type_input = si\<rparr>"
  let ?row = "[0, 0, 0, 0, 1 :: real]"
  have pi: "prepare_input (g_max_sequence_length one_chord_generator) cs gi mi ki si = Inr F"
    using assms(2) by (simp add: prepare_input_def one_chord_generator_def F_def)
  have pr: "concentrated_model 5 4 F = replicate 12 ?row"
    using assms(2) by (simp add: model_row F_def)
  have nth: "py_nth (replicate 12 ?row)
               (if int (length cs) - 1 \<ge> int (length (replicate 12 ?row))
                then int (length (replicate 12 ?row)) - 1 else int (length cs) - 1) = Inr ?row"
    using assms by (cases cs) (simp_all add: py_nth_def)
  have smp: "sample_with_temperature (choice_cdf (\<lambda>k. 9 / 10)) k ?row 1 = Inr (4, Suc k)"
    by (simp add: sample_with_temperature_def choice_high)
  have nm: "dict_get (g_id_to_chord one_chord_generator) 4 ''<UNK>'' = ''C''"
    by (simp add: one_chord_generator_def dict_get_def)
  have stop: "((4::nat) = 0 \<or> (4::nat) = 2) = False" by simp
  show ?thesis
    by (subst generate_loop.simps(2))
       (simp only: pi pr nth smp nm stop sum.case Let_def prod.case if_False)
qed

lemma always_chord:
  assumes "cs \<noteq> []"
  shows "generate_loop one_chord_generator (concentrated_model 5 4) (choice_cdf (\<lambda>k. 9 / 10)) 1
           ids n (cs, acc, k)
         = (if n = 0 \<or> length cs + n \<le> 13 then Inr (acc @ replicate n ''C'')
            else Inl ValueError)"
  using assms
proof (induction n arbitrary: cs acc k)
  case 0
  then show ?case by (cases ids) simp
next
  case (Suc n)
  obtain gi mi ki si where ids: "ids = (gi, mi, ki, si)" by (cases ids) auto
  show ?case
  proof (cases "length cs \<le> 12")
    case False
    then have "length cs > g_max_sequence_length one_chord_generator"
      by (simp add: one_chord_generator_def)
    then have "generate_loop one_chord_generator (concentrated_model 5 4)
                 (choice_cdf (\<lambda>k. 9 / 10)) 1 ids (Suc n) (cs, acc, k) = Inl ValueError"
      by (rule frame_overflow)
    moreover have "\<not> (Suc n = 0 \<or> length cs + Suc n \<le> 13)" using False by simp
    ultimately show ?thesis by (simp only: if_False)
  next
    case True
    have ne: "cs @ [4] \<noteq> []" by simp
    have "generate_loop one_chord_generator (concentrated_model 5 4)
                 (choice_cdf (\<lambda>k. 9 / 10)) 1 ids (Suc n) (cs, acc, k)
          = (if n = 0 \<or> length (cs @ [4]) + n \<le> 13
             then Inr ((acc @ [''C'']) @ replicate n ''C'') else Inl ValueError)"
      using one_chord_step[OF Suc.prems True, of gi mi ki si n acc k]
        Suc.IH[OF ne, of "acc @ [''C'']" "Suc k"]
      by (simp only: ids)
    moreover have "(n = 0 \<or> length (cs @ [4]) + n \<le> 13)
                   = (Suc n = 0 \<or> length cs + Suc n \<le> 13)"
      using True by auto
    moreover have "(acc @ [''C'']) @ replicate n ''C'' = acc @ replicate (Suc n) ''C''"
      by simp
    ultimately show ?thesis by (simp only:)
  qed
qed

lemma py_nth_clamped:
  assumes "rows \<noteq> []" "cs \<noteq> []"
  shows "\<exists>row \<in> set rows.
           py_nth rows (if int (length cs) - 1 \<ge> int (length rows)
                        then int (length rows) - 1 else int (length cs) - 1) = Inr row"
proof -
  let ?pos = "if int (length cs) - 1 \<ge> int (length rows)
              then int (length rows) - 1 else int (length cs) - 1"
  have r: "0 < length rows" and c: "0 < length cs" using assms by simp_all
  have b: "0 \<le> ?pos \<and> ?pos < int (length rows)" using r c by auto
  then have "py_nth rows ?pos = Inr (rows ! nat ?pos)" by (simp add: py_nth_def)
  moreover have "rows ! nat ?pos \<in> set rows" using b by (intro nth_mem) linarith
  ultimately show ?thesis by blast
qed

text \<open>
  While the sequence fits the frame, a model that returns at least one position and no
  empty score vector, and a temperature other than 0, the loop returns: it appends to the
  output at most \<open>n\<close> chords.
\<close>

lemma generate_loop_within_frame:
  assumes model: "\<forall>inp. predict inp \<noteq> [] \<and> [] \<notin> set (predict inp)"
      and t: "temperature \<noteq> 0"
      and cs: "cs \<noteq> []"
      and fit: "n = 0 \<or> length cs + n \<le> Suc (g_max_sequence_length g)"
  shows "\<exists>out. generate_loop g predict choice temperature ids n (cs, acc, rng) = Inr (acc @ out)
               \<and> length out \<le> n"
  using cs fit
proof (induction n arbitrary: cs acc rng)
  case 0
  then show ?case by (cases ids) simp
next
  case (Suc n)
  obtain gi mi ki si where ids: "ids = (gi, mi, ki, si)" by (cases ids) auto
  define F where "F = \<lparr>chord_sequence_input = cs @ replicate (g_max_sequence_length g - length cs) 0,
                genre_input = gi, mood_input = mi, key_input = ki, scale_type_input = si\<rparr>"
  have len: "length cs \<le> g_max_sequence_length g" using Suc.prems(2) by simp
  have pi: "prepare_input (g_max_sequence_length g) cs gi mi ki si = Inr F"
    using len by (simp add: prepare_input_def F_def)
  obtain row where row: "row \<in> set (predict F)"
     "py_nth (predict F) (if int (length cs) - 1 \<ge> int (length (predict F))
                        then int (length (predict F)) - 1 else int (length cs) - 1) = Inr row"
    using py_nth_clamped[of "predict F" cs] model Suc.prems(1) by blast
  have "row \<noteq> []" using row(1) model by metis
  then have smp: "sample_with_temperature choice rng row temperature
                  = Inr (choice rng (sampling_probs row temperature))"
    using t by (simp add: sample_with_temperature_def)
  obtain nid rng' where ch: "choice rng (sampling_probs row temperature) = (nid, rng')"
    by (cases "choice rng (sampling_probs row temperature)")
  have step: "generate_loop g predict choice temperature ids (Suc n) (cs, acc, rng)
              = (if nid = 0 \<or> nid = 2 then Inr acc
                 else generate_loop g predict choice temperature ids n
                        (cs @ [nid], acc @ [dict_get (g_id_to_chord g) nid ''<UNK>''], rng'))"
    unfolding ids
    by (subst generate_loop.simps(2))
       (simp only: pi row(2) smp ch sum.case Let_def prod.case)
  show ?case
  proof (cases "nid = 0 \<or> nid = 2")
    case True
    then show ?thesis using step by simp
  next
    case False
    have "cs @ [nid] \<noteq> []" by simp
    moreover have "n = 0 \<or> length (cs @ [nid]) + n \<le> Suc (g_max_sequence_length g)"
      using Suc.prems(2) by simp
    ultimately obtain out where
      "generate_loop g predict choice temperature ids n
         (cs @ [nid], acc @ [dict_get (g_id_to_chord g) nid ''<UNK>''], rng')
       = Inr ((acc @ [dict_get (g_id_to_chord g) nid ''<UNK>'']) @ out)" "length out \<le> n"
      using Suc.IH by blast
    then show ?thesis
      using step False
      by (intro exI[of _ "dict_get (g_id_to_chord g) nid ''<UNK>'' # out"]) simp
  qed
qed

text \<open>
  Under the same conditions, when every draw gives the same id \<open>k\<close>, the loop returns the
  chord of \<open>k\<close> repeated \<open>n\<close> times, and nothing when \<open>k\<close> is the PAD or the END id.
\<close>

lemma generate_loop_constant_draw:
  assumes model: "\<forall>inp. predict inp \<noteq> [] \<and> [] \<notin> set (predict inp)"
      and t: "temperature \<noteq> 0"
      and draw: "\<forall>r p. fst (choice r p) = k"
      and cs: "cs \<noteq> []"
      and fit: "n = 0 \<or> length cs + n \<le> Suc (g_max_sequence_length g)"
  shows "generate_loop g predict choice temperature ids n (cs, acc, rng)
         = Inr (if k = 0 \<or> k = 2 then acc
                else acc @ replicate n (dict_get (g_id_to_chord g) k ''<UNK>''))"
  using cs fit
proof (induction n arbitrary: cs acc rng)
  case 0
  then show ?case by (cases ids) simp
next
  case (Suc n)
  obtain gi mi ki si where ids: "ids = (gi, mi, ki, si)" by (cases ids) auto
  define F where "F = \<lparr>chord_sequence_input = cs @ replicate (g_max_sequence_length g - length cs) 0,
                genre_input = gi, mood_input = mi, key_input = ki, scale_type_input = si\<rparr>"
  have len: "length cs \<le> g_max_sequence_length g" using Suc.prems(2) by simp
  have pi: "prepare_input (g_max_sequence_length g) cs gi mi ki si = Inr F"
    using len by (simp add: prepare_input_def F_def)
  obtain row where row: "row \<in> set (predict F)"
     "py_nth (predict F) (if int (length cs) - 1 \<ge> int (length (predict F))
                        then int (length (predict F)) - 1 else int (length cs) - 1) = Inr row"
    using py_nth_clamped[of "predict F" cs] model Suc.prems(1) by blast
  have "row \<noteq> []" using row(1) model by metis
  then have smp: "sample_with_temperature choice rng row temperature
                  = Inr (choice rng (sampling_probs row temperature))"
    using t by (simp add: sample_with_temperature_def)
  obtain rng' where ch: "choice rng (sampling_probs row temperature) = (k, rng')"
    using draw by (metis prod.collapse)
  have step: "generate_loop g predict choice temperature ids (Suc n) (cs, acc, rng)
              = (if k = 0 \<or> k = 2 then Inr acc
                 else generate_loop g predict choice temperature ids n
                        (cs @ [k], acc @ [dict_get (g_id_to_chord g) k ''<UNK>''], rng'))"
    unfolding ids
    by (subst generate_loop.simps(2))
       (simp only: pi row(2) smp ch sum.case Let_def prod.case)
  show ?case
  proof (cases "k = 0 \<or> k = 2")
    case True
    then show ?thesis using step by simp
  next
    case False
    have "cs @ [k] \<noteq> []" by simp
    moreover have "n = 0 \<or> length (cs @ [k]) + n \<le> Suc (g_max_sequence_length g)"
      using Suc.prems(2) by simp
    ultimately have "generate_loop g predict choice temperature ids n
         (cs @ [k], acc @ [dict_get (g_id_to_chord g) k ''<UNK>''], rng')
       = Inr (if k = 0 \<or> k = 2 then acc @ [dict_get (g_id_to_chord g) k ''<UNK>'']
              else (acc @ [dict_get (g_id_to_chord g) k ''<UNK>''])
                   @ replicate n (dict_get (g_id_to_chord g) k ''<UNK>''))"
      by (rule Suc.IH)
    then show ?thesis using step False by (simp add: replicate_app_Cons_same)
  qed
qed

text \<open>
  C1, as the code has it. The model's output layer is a softmax, and \<open>generate_progression\<close>
  hands its probabilities to \<open>_sample_with_temperature\<close>, which treats them as logits and
  applies a softmax once more. For a model that puts probability 1 on id 4 of a vocabulary
  of five ids, at temperature 1 the probabilities given to \<open>np.random.choice\<close> are
  \<open>1 / (4 / e + 1)\<close>, below one half, for id 4 and \<open>(1 / e) / (4 / e + 1)\<close>, above one
  tenth, for every other id. With a uniform number 0.1 at the first draw the id drawn is 0,
  the PAD id, and the generator returns the empty list, not the chord four times.
\<close>

theorem concentrated_model_generation:
  "sampling_probs (one_hot 5 4) 1 ! 4 < 1 / 2
   \<and> 1 / 10 < sampling_probs (one_hot 5 4) 1 ! 0
   \<and> generate_progression one_chord_generator (concentrated_model 5 4)
        (choice_cdf (\<lambda>k. 1 / 10)) 0 ''pop'' ''uplifting'' ''C'' ''major'' 4 1 None = Inr []"
proof -
  have n: "nat 4 = Suc 3" by simp
  have "generate_progression one_chord_generator (concentrated_model 5 4)
        (choice_cdf (\<lambda>k. 1 / 10)) 0 ''pop'' ''uplifting'' ''C'' ''major'' 4 1 None = Inr []"
    by (simp only: unseeded_start one_chord_start n stops_at_pad)
  then show ?thesis
    using pad_prob chord_prob by (simp add: one_hot_5_4 probs_one_hot)
qed

text \<open>
  C3, as the code has it. \<open>prepare_input\<close> raises ValueError as soon as the current sequence
  is longer than the frame of 12 positions, so the clamp of \<open>current_pos\<close> that follows it
  is never reached: thirteen seed chords raise at the first step, whatever the model and
  the draws, and an unseeded request for 13 chords raises at the thirteenth step when no
  stop id is drawn before, while the same request for 12 chords returns 12 chords.
\<close>

theorem generate_progression_raises:
  "generate_progression one_chord_generator predict choice rng gn mn kn sn 1 t
     (Some (replicate 13 ''C'')) = Inl ValueError
   \<and> generate_progression one_chord_generator (concentrated_model 5 4)
       (choice_cdf (\<lambda>k. 9 / 10)) 0 ''pop'' ''uplifting'' ''C'' ''major'' 13 1 None
       = Inl ValueError
   \<and> generate_progression one_chord_generator (concentrated_model 5 4)
       (choice_cdf (\<lambda>k. 9 / 10)) 0 ''pop'' ''uplifting'' ''C'' ''major'' 12 1 None
       = Inr (replicate 12 ''C'')"
proof -
  have a: "generate_progression one_chord_generator predict choice rng gn mn kn sn 1 t
     (Some (replicate 13 ''C'')) = Inl ValueError"
  proof -
    have "length (initial_sequence one_chord_generator (Some (replicate 13 ''C''))) = 13"
      by (simp add: initial_sequence_def)
    then have "length (initial_sequence one_chord_generator (Some (replicate 13 ''C'')))
                 > g_max_sequence_length one_chord_generator"
      by (simp add: one_chord_generator_def)
    then show ?thesis
      using frame_overflow[of one_chord_generator _ predict choice t _ 0 "[]" rng]
      by (simp add: generate_progression_def Let_def del: generate_loop.simps)
  qed
  have b: "generate_progression one_chord_generator (concentrated_model 5 4)
       (choice_cdf (\<lambda>k. 9 / 10)) 0 ''pop'' ''uplifting'' ''C'' ''major'' 13 1 None
       = Inl ValueError"
    by (simp add: unseeded_start one_chord_start always_chord del: generate_loop.simps)
  have c: "generate_progression one_chord_generator (concentrated_model 5 4)
       (choice_cdf (\<lambda>k. 9 / 10)) 0 ''pop'' ''uplifting'' ''C'' ''major'' 12 1 None
       = Inr (replicate 12 ''C'')"
    by (simp add: unseeded_start one_chord_start always_chord del: generate_loop.simps)
  show ?thesis using a b c by (intro conjI)
qed

end
